theory Spec2Isabelle
  imports Main
begin

section \<open>code2ascii: a line-oriented ANSI syntax highlighter\<close>

text \<open>
  The program (\<^verbatim>\<open>src/main.cpp\<close>) reads a file line by line and prints every line with
  the matches of a few regular expressions wrapped in ANSI colour sequences. The rule set
  is chosen from the file name's extension.

  The development has three layers:
  \<^item> the part of \<^verbatim>\<open>std::regex\<close> (ECMAScript grammar) that the rule catalogue uses, as a
    datatype of patterns with a backtracking matcher;
  \<^item> the functions of \<^verbatim>\<open>main.cpp\<close>: \<^verbatim>\<open>rgb\<close>, \<^verbatim>\<open>getHighlightRules\<close>, \<^verbatim>\<open>getFileExtension\<close>,
    \<^verbatim>\<open>highlightAndPrintLine\<close> and \<^verbatim>\<open>main\<close>;
  \<^item> the properties of these functions.
\<close>

subsection \<open>Characters\<close>

definition newline :: char where
  "newline = CHR 0x0A"

definition carriage_return :: char where
  "carriage_return = CHR 0x0D"

definition esc :: char where
  "esc = CHR 0x1B"

definition dquote :: char where
  "dquote = CHR 0x22"

definition squote :: char where
  "squote = CHR 0x27"

definition backslash :: char where
  "backslash = CHR 0x5C"

definition digit_chars :: "char list" where
  "digit_chars = ''0123456789''"

definition word_chars :: "char list" where
  "word_chars =
     ''abcdefghijklmnopqrstuvwxyz'' @ ''ABCDEFGHIJKLMNOPQRSTUVWXYZ'' @ ''0123456789'' @ ''_''"

subsection \<open>The regular expressions of the catalogue\<close>

text \<open>
  \<^verbatim>\<open>std::regex\<close> is library code. The model covers the constructs that occur in the
  patterns of \<^verbatim>\<open>getHighlightRules\<close>: ordinary characters, \<^verbatim>\<open>.\<close>, bracket expressions and
  their negation, \<^verbatim>\<open>\d\<close>, the assertions \<^verbatim>\<open>\b\<close> and \<^verbatim>\<open>$\<close>, concatenation, alternation
  and the greedy quantifiers \<^verbatim>\<open>*\<close>, \<^verbatim>\<open>+\<close> and \<^verbatim>\<open>?\<close>. Capture groups do not influence
  \<^verbatim>\<open>position(0)\<close> and \<^verbatim>\<open>length(0)\<close> of a match when there are no back-references, so a
  group is modelled by its body.
\<close>

datatype regex =
    Eps
  | Lit char
  | Dot
  | OneOf "char list"
  | NoneOf "char list"
  | WordB
  | Eol
  | Cat regex regex
  | Alt regex regex
  | Star regex

abbreviation Plus :: "regex \<Rightarrow> regex" where
  "Plus r \<equiv> Cat r (Star r)"

abbreviation Opt :: "regex \<Rightarrow> regex" where
  "Opt r \<equiv> Alt r Eps"

abbreviation Digit :: regex where
  "Digit \<equiv> OneOf digit_chars"

text \<open>The pattern of a literal string, and the alternation of a list of patterns.\<close>

fun str :: "string \<Rightarrow> regex" where
  "str [] = Eps"
| "str (c # cs) = Cat (Lit c) (str cs)"

fun alts :: "regex list \<Rightarrow> regex" where
  "alts [] = OneOf []"
| "alts [r] = r"
| "alts (r # rs) = Alt r (alts rs)"

text \<open>
  A cursor is a position in the subject string: the character before it (if any) and the
  text after it. The assertions \<^verbatim>\<open>\b\<close> and \<^verbatim>\<open>$\<close> look at both sides.
\<close>

type_synonym cursor = "char option \<times> string"

fun is_word_before :: "char option \<Rightarrow> bool" where
  "is_word_before None = False"
| "is_word_before (Some c) = (c \<in> set word_chars)"

fun is_word_after :: "string \<Rightarrow> bool" where
  "is_word_after [] = False"
| "is_word_after (c # cs) = (c \<in> set word_chars)"

fun word_boundary :: "cursor \<Rightarrow> bool" where
  "word_boundary (prev, rest) = (is_word_before prev \<noteq> is_word_after rest)"

fun eat :: "(char \<Rightarrow> bool) \<Rightarrow> cursor \<Rightarrow> cursor list" where
  "eat P (prev, []) = []"
| "eat P (prev, c # cs) = (if P c then [(Some c, cs)] else [])"

text \<open>
  The matcher returns the cursors at which a match of the pattern starting at the given
  cursor can end, in the order in which a backtracking matcher finds them: the first
  alternative before the second, one more iteration of a greedy quantifier before
  stopping. The head of the list is the match that \<^verbatim>\<open>std::regex\<close> reports.

  An iteration of \<^verbatim>\<open>*\<close> that consumes no character is rejected, as the ECMAScript
  specification (RepeatMatcher, step 2.b) says. Every iteration therefore consumes at least
  one character, and the number of characters after the cursor bounds the number of
  iterations: \<open>star\<close> recurses on that bound.
\<close>

fun star :: "(cursor \<Rightarrow> cursor list) \<Rightarrow> nat \<Rightarrow> cursor \<Rightarrow> cursor list" where
  "star f 0 x = [x]"
| "star f (Suc n) x =
     concat (map (star f n) (filter (\<lambda>y. length (snd y) < length (snd x)) (f x))) @ [x]"

primrec matches :: "regex \<Rightarrow> cursor \<Rightarrow> cursor list" where
  "matches Eps = (\<lambda>x. [x])"
| "matches (Lit a) = eat (\<lambda>c. c = a)"
| "matches Dot = eat (\<lambda>c. c \<noteq> newline \<and> c \<noteq> carriage_return)"
| "matches (OneOf cs) = eat (\<lambda>c. c \<in> set cs)"
| "matches (NoneOf cs) = eat (\<lambda>c. c \<notin> set cs)"
| "matches WordB = (\<lambda>x. if word_boundary x then [x] else [])"
| "matches Eol = (\<lambda>x. if snd x = [] then [x] else [])"
| "matches (Cat a b) = (\<lambda>x. concat (map (matches b) (matches a x)))"
| "matches (Alt a b) = (\<lambda>x. matches a x @ matches b x)"
| "matches (Star a) = (\<lambda>x. star (matches a) (length (snd x)) x)"

text \<open>
  \<^verbatim>\<open>regex_search(s, match, re)\<close> tries the start positions of \<open>s\<close> from left to right,
  the end of the string included, and reports the first position at which the pattern
  matches together with the first match there: \<open>Some (match.position(0),
  match.length(0))\<close>, and \<open>None\<close> when it returns false.
\<close>

fun search_from :: "regex \<Rightarrow> nat \<Rightarrow> cursor \<Rightarrow> (nat \<times> nat) option" where
  "search_from r pos (prev, rest) =
     (case matches r (prev, rest) of
        y # ys \<Rightarrow> Some (pos, length rest - length (snd y))
      | [] \<Rightarrow> (case rest of
                 [] \<Rightarrow> None
               | c # cs \<Rightarrow> search_from r (Suc pos) (Some c, cs)))"

definition regex_search :: "string \<Rightarrow> regex \<Rightarrow> (nat \<times> nat) option" where
  "regex_search s r = search_from r 0 (None, s)"

text \<open>
  A lower bound on the number of characters a match of a pattern consumes. It is used to
  show that no pattern of the catalogue has an empty match.
\<close>

primrec min_len :: "regex \<Rightarrow> nat" where
  "min_len Eps = 0"
| "min_len (Lit a) = 1"
| "min_len Dot = 1"
| "min_len (OneOf cs) = 1"
| "min_len (NoneOf cs) = 1"
| "min_len WordB = 0"
| "min_len Eol = 0"
| "min_len (Cat a b) = min_len a + min_len b"
| "min_len (Alt a b) = min (min_len a) (min_len b)"
| "min_len (Star a) = 0"

subsection \<open>Colours\<close>

text \<open>\<^verbatim>\<open>std::to_string\<close> on an \<^verbatim>\<open>int\<close>: decimal digits, with a minus sign when negative.\<close>

definition digit_char :: "nat \<Rightarrow> char" where
  "digit_char d = digit_chars ! (d mod 10)"

function decimal :: "nat \<Rightarrow> string" where
  "decimal n = (if n < 10 then [digit_char n] else decimal (n div 10) @ [digit_char (n mod 10)])"
  by pat_completeness auto
termination
  by (relation "measure (\<lambda>n. n)") auto

declare decimal.simps [simp del]

definition to_string :: "int \<Rightarrow> string" where
  "to_string i = (if i < 0 then CHR ''-'' # decimal (nat (- i)) else decimal (nat i))"

definition rgb :: "int \<Rightarrow> int \<Rightarrow> int \<Rightarrow> string" where
  "rgb r g b =
     esc # ''[38;2;'' @ to_string r @ '';'' @ to_string g @ '';'' @ to_string b @ ''m''"

definition reset :: string where
  "reset = esc # ''[0m''"

subsection \<open>The rule catalogue\<close>

record HighlightRule =
  pattern :: regex
  color_code :: string

definition cpp_keywords :: "string list" where
  "cpp_keywords =
   [''alignas'', ''alignof'', ''and'', ''and_eq'', ''asm'', ''auto'', ''bool'', ''break'',
    ''case'', ''catch'', ''char'', ''class'', ''const'', ''constexpr'', ''const_cast'',
    ''continue'', ''decltype'', ''default'', ''delete'', ''do'', ''double'',
    ''dynamic_cast'', ''else'', ''enum'', ''explicit'', ''export'', ''extern'', ''false'',
    ''float'', ''for'', ''friend'', ''goto'', ''if'', ''inline'', ''int'', ''long'',
    ''mutable'', ''namespace'', ''new'', ''noexcept'', ''nullptr'', ''operator'',
    ''private'', ''protected'', ''public'', ''register'', ''reinterpret_cast'',
    ''return'', ''short'', ''signed'', ''sizeof'', ''static'', ''static_assert'',
    ''static_cast'', ''struct'', ''switch'', ''template'', ''this'', ''thread_local'',
    ''throw'', ''true'', ''try'', ''typedef'', ''typeid'', ''typename'', ''union'',
    ''unsigned'', ''using'', ''virtual'', ''void'', ''volatile'', ''wchar_t'', ''while'',
    ''xor'', ''xor_eq'']"

definition py_keywords :: "string list" where
  "py_keywords =
   [''False'', ''None'', ''True'', ''and'', ''as'', ''assert'', ''async'', ''await'',
    ''break'', ''class'', ''continue'', ''def'', ''del'', ''elif'', ''else'', ''except'',
    ''finally'', ''for'', ''from'', ''global'', ''if'', ''import'', ''in'', ''is'',
    ''lambda'', ''nonlocal'', ''not'', ''or'', ''pass'', ''raise'', ''return'', ''try'',
    ''while'', ''with'', ''yield'']"

text \<open>\<^verbatim>\<open>\b(kw1|kw2|...)\b\<close>\<close>

definition keyword_re :: "string list \<Rightarrow> regex" where
  "keyword_re kws = Cat WordB (Cat (alts (map str kws)) WordB)"

text \<open>\<^verbatim>\<open>"[^"\\]*(\\.[^"\\]*)*"\<close> for the quote character \<open>q\<close> (C family).\<close>

definition c_string_re :: "char \<Rightarrow> regex" where
  "c_string_re q =
     Cat (Lit q)
       (Cat (Star (NoneOf [q, backslash]))
         (Cat (Star (Cat (Lit backslash) (Cat Dot (Star (NoneOf [q, backslash])))))
           (Lit q)))"

text \<open>\<^verbatim>\<open>"([^"\\]|\\.)*"\<close> for the quote character \<open>q\<close> (Python).\<close>

definition py_string_re :: "char \<Rightarrow> regex" where
  "py_string_re q =
     Cat (Lit q) (Cat (Star (Alt (NoneOf [q, backslash]) (Cat (Lit backslash) Dot))) (Lit q))"

text \<open>\<^verbatim>\<open>//.*$\<close> and \<^verbatim>\<open>#.*$\<close>: the comment marker, then the rest of the line.\<close>

definition comment_re :: "string \<Rightarrow> regex" where
  "comment_re marker = Cat (str marker) (Cat (Star Dot) Eol)"

text \<open>\<^verbatim>\<open>\b\d+(\.\d+)?\b\<close>\<close>

definition number_re :: regex where
  "number_re = Cat WordB (Cat (Plus Digit) (Cat (Opt (Cat (Lit CHR ''.'') (Plus Digit))) WordB))"

definition keyword_color :: string where
  "keyword_color = rgb 0x00 0x88 0xff"

definition string_color :: string where
  "string_color = rgb 0xff 0x88 0x00"

definition comment_color :: string where
  "comment_color = rgb 0x88 0x88 0x88"

definition number_color :: string where
  "number_color = rgb 0xff 0x00 0xff"

definition c_rules :: "HighlightRule list" where
  "c_rules =
    [\<lparr>pattern = keyword_re cpp_keywords, color_code = keyword_color\<rparr>,
     \<lparr>pattern = c_string_re dquote, color_code = string_color\<rparr>,
     \<lparr>pattern = c_string_re squote, color_code = string_color\<rparr>,
     \<lparr>pattern = comment_re ''//'', color_code = comment_color\<rparr>,
     \<lparr>pattern = number_re, color_code = number_color\<rparr>]"

definition py_rules :: "HighlightRule list" where
  "py_rules =
    [\<lparr>pattern = keyword_re py_keywords, color_code = keyword_color\<rparr>,
     \<lparr>pattern = py_string_re dquote, color_code = string_color\<rparr>,
     \<lparr>pattern = py_string_re squote, color_code = string_color\<rparr>,
     \<lparr>pattern = comment_re ''#'', color_code = comment_color\<rparr>,
     \<lparr>pattern = number_re, color_code = number_color\<rparr>]"

definition getHighlightRules :: "string \<Rightarrow> HighlightRule list" where
  "getHighlightRules ext =
     (if ext = ''cpp'' \<or> ext = ''hpp'' \<or> ext = ''c'' \<or> ext = ''h'' then c_rules
      else if ext = ''py'' then py_rules
      else [])"

text \<open>The extensions that \<^verbatim>\<open>getHighlightRules\<close> compares its argument with.\<close>

definition supported :: "string set" where
  "supported = {''cpp'', ''hpp'', ''c'', ''h'', ''py''}"

subsection \<open>The file extension\<close>

text \<open>\<^verbatim>\<open>s.find_last_of(c)\<close>: the index of the last \<open>c\<close> in \<open>s\<close>; \<open>None\<close> is \<^verbatim>\<open>npos\<close>.\<close>

fun find_last_of :: "string \<Rightarrow> char \<Rightarrow> nat option" where
  "find_last_of [] c = None"
| "find_last_of (x # xs) c =
     (case find_last_of xs c of
        Some i \<Rightarrow> Some (Suc i)
      | None \<Rightarrow> (if x = c then Some 0 else None))"

definition getFileExtension :: "string \<Rightarrow> string" where
  "getFileExtension filename =
     (case find_last_of filename CHR ''.'' of
        None \<Rightarrow> []
      | Some pos \<Rightarrow> drop (pos + 1) filename)"

subsection \<open>Highlighting one line\<close>

text \<open>
  What \<^verbatim>\<open>highlightAndPrintLine\<close> writes to \<^verbatim>\<open>cout\<close> is recorded as a sequence of spans:
  \<open>Plain t\<close> for \<^verbatim>\<open>cout << t\<close>, and \<open>Colored c t\<close> for \<^verbatim>\<open>cout << c << t << reset\<close>.
  \<open>render\<close> gives the bytes.
\<close>

datatype span = Plain string | Colored string string

fun span_text :: "span \<Rightarrow> string" where
  "span_text (Plain t) = t"
| "span_text (Colored c t) = t"

fun render_span :: "span \<Rightarrow> string" where
  "render_span (Plain t) = t"
| "render_span (Colored c t) = c @ t @ reset"

definition render :: "span list \<Rightarrow> string" where
  "render spans = concat (map render_span spans)"

text \<open>The text of a span sequence: what is left when the colour markers are removed.\<close>

definition plain_text :: "span list \<Rightarrow> string" where
  "plain_text spans = concat (map span_text spans)"

text \<open>
  The \<^verbatim>\<open>for\<close> loop over the rules. Its state is \<open>None\<close> while \<^verbatim>\<open>earliest_pos\<close> is
  \<^verbatim>\<open>npos\<close> (every \<^verbatim>\<open>match_pos\<close> is below \<^verbatim>\<open>npos\<close>), and otherwise
  \<open>Some (earliest_pos, earliest_len, color_code)\<close>.
\<close>

fun consider_rule ::
  "string \<Rightarrow> (nat \<times> nat \<times> string) option \<Rightarrow> HighlightRule \<Rightarrow> (nat \<times> nat \<times> string) option"
where
  "consider_rule remaining earliest rule =
     (case regex_search remaining (pattern rule) of
        None \<Rightarrow> earliest
      | Some (match_pos, match_len) \<Rightarrow>
          (case earliest of
             None \<Rightarrow> Some (match_pos, match_len, color_code rule)
           | Some (earliest_pos, earliest_len, color) \<Rightarrow>
               if match_pos < earliest_pos
               then Some (match_pos, match_len, color_code rule)
               else earliest))"

definition find_earliest :: "HighlightRule list \<Rightarrow> string \<Rightarrow> (nat \<times> nat \<times> string) option" where
  "find_earliest rules remaining = foldl (consider_rule remaining) None rules"

text \<open>
  The \<^verbatim>\<open>while\<close> loop. Nothing in the source bounds the number of its iterations, so it is a
  partial function: \<open>None\<close> means that the loop does not return. A match lies inside the
  text that was searched (lemma \<open>regex_search_range\<close> below), so the arguments of
  \<^verbatim>\<open>substr\<close> are in range and \<^verbatim>\<open>substr\<close> is \<open>take\<close> and \<open>drop\<close>; \<^verbatim>\<open>earliest_match.str(0)\<close>
  is the text of \<^verbatim>\<open>remaining\<close> from \<^verbatim>\<open>earliest_pos\<close> of length \<^verbatim>\<open>earliest_len\<close>.
\<close>

partial_function (option) scan_loop ::
  "HighlightRule list \<Rightarrow> string \<Rightarrow> span list \<Rightarrow> span list option"
where
  "scan_loop rules remaining out =
     (if remaining = [] then Some out
      else case find_earliest rules remaining of
        None \<Rightarrow> Some (out @ [Plain remaining])
      | Some (earliest_pos, earliest_len, color) \<Rightarrow>
          scan_loop rules (drop (earliest_pos + earliest_len) remaining)
            (out
              @ (if earliest_pos > 0 then [Plain (take earliest_pos remaining)] else [])
              @ [Colored color (take earliest_len (drop earliest_pos remaining))]))"

declare scan_loop.simps [code]

definition highlight_spans :: "string \<Rightarrow> HighlightRule list \<Rightarrow> span list option" where
  "highlight_spans line rules = scan_loop rules line []"

definition highlightAndPrintLine :: "string \<Rightarrow> HighlightRule list \<Rightarrow> string option" where
  "highlightAndPrintLine line rules =
     map_option (\<lambda>spans. render spans @ [newline]) (highlight_spans line rules)"

subsection \<open>The program\<close>

text \<open>
  \<open>main prog args fs\<close>: \<open>prog\<close> is \<^verbatim>\<open>argv[0]\<close>, \<open>args\<close> are the arguments after it
  (\<^verbatim>\<open>argc = 1 + length args\<close>, so \<^verbatim>\<open>argc < 2\<close> when \<open>args\<close> is empty), and \<open>fs\<close> maps a path to the lines that \<^verbatim>\<open>getline\<close>
  reads from the file, or to \<open>None\<close> when the \<^verbatim>\<open>ifstream\<close> cannot be opened. The result
  is the exit code with the bytes written to \<^verbatim>\<open>cout\<close> and \<^verbatim>\<open>cerr\<close>; \<open>None\<close> when the
  program does not return.
\<close>

record outcome =
  exit_code :: int
  stdout :: string
  stderr :: string

fun print_lines :: "HighlightRule list \<Rightarrow> string list \<Rightarrow> string option" where
  "print_lines rules [] = Some []"
| "print_lines rules (line # lines) =
     (case highlightAndPrintLine line rules of
        None \<Rightarrow> None
      | Some printed \<Rightarrow> map_option (\<lambda>more. printed @ more) (print_lines rules lines))"

definition main :: "string \<Rightarrow> string list \<Rightarrow> (string \<Rightarrow> string list option) \<Rightarrow> outcome option" where
  "main prog args fs =
     (case args of
        [] \<Rightarrow>
          Some \<lparr>exit_code = 1, stdout = [],
                stderr = ''Usage: '' @ prog @ '' filename'' @ [newline]\<rparr>
      | filename # ignored \<Rightarrow>
          (case fs filename of
             None \<Rightarrow>
               Some \<lparr>exit_code = 1, stdout = [],
                     stderr = ''Error: Cannot open file '' @ filename @ [newline]\<rparr>
           | Some lines \<Rightarrow>
               map_option (\<lambda>printed. \<lparr>exit_code = 0, stdout = printed, stderr = []\<rparr>)
                 (print_lines (getHighlightRules (getFileExtension filename)) lines)))"

subsection \<open>Colour markers in the bytes\<close>

text \<open>
  The definitions of this subsection are not part of the program. They say what a colour
  marker is in a stream of bytes, an SGR sequence \<^verbatim>\<open>ESC [ parameters m\<close>, and what removing
  the markers from the bytes means, so that the text of the spans can be compared with the
  bytes that \<^verbatim>\<open>highlightAndPrintLine\<close> writes.
\<close>

definition sgr_params :: "char list" where
  "sgr_params = ''0123456789;''"

fun is_marker :: "string \<Rightarrow> bool" where
  "is_marker (e # b # body) =
     (e = esc \<and> b = CHR ''['' \<and> body \<noteq> [] \<and> last body = CHR ''m'' \<and>
      list_all (\<lambda>c. c \<in> set sgr_params) (butlast body))"
| "is_marker s = False"

function strip_markers :: "string \<Rightarrow> string" where
  "strip_markers [] = []"
| "strip_markers (c # cs) =
     (if c = esc then strip_markers (drop 1 (dropWhile (\<lambda>x. x \<noteq> CHR ''m'') cs))
      else c # strip_markers cs)"
  by pat_completeness auto
termination
proof (relation "measure length")
  show "wf (measure length)" by simp
next
  fix c :: char and cs :: string
  have "length (dropWhile (\<lambda>x. x \<noteq> CHR ''m'') cs) \<le> length cs"
    by (rule length_dropWhile_le)
  then show "(drop 1 (dropWhile (\<lambda>x. x \<noteq> CHR ''m'') cs), c # cs) \<in> measure length"
    by simp
next
  fix c :: char and cs :: string
  show "(cs, c # cs) \<in> measure length" by simp
qed

text \<open>A span whose text has no escape character and whose colour code is a marker.\<close>

fun clean_span :: "span \<Rightarrow> bool" where
  "clean_span (Plain t) = (esc \<notin> set t)"
| "clean_span (Colored c t) = (is_marker c \<and> esc \<notin> set t)"

subsection \<open>Inputs used in the examples\<close>

text \<open>The two lines of the scenarios.\<close>

definition scenario_c :: string where
  "scenario_c = ''int x = 42; // comment''"

definition scenario_py :: string where
  "scenario_py = ''s = '' @ [dquote] @ ''value 123'' @ [dquote]"

text \<open>A rule whose pattern \<^verbatim>\<open>x*\<close> matches the empty string.\<close>

definition star_x_rule :: HighlightRule where
  "star_x_rule = \<lparr>pattern = Star (Lit CHR ''x''), color_code = keyword_color\<rparr>"

text \<open>
  Three rules of which the second and the third match at the same index of
  \<^verbatim>\<open>a double x\<close>, the third with the longer match.
\<close>

definition tie_rules :: "HighlightRule list" where
  "tie_rules =
     [\<lparr>pattern = str ''x'', color_code = comment_color\<rparr>,
      \<lparr>pattern = str ''do'', color_code = keyword_color\<rparr>,
      \<lparr>pattern = str ''double'', color_code = string_color\<rparr>]"

text \<open>Two file systems, each with one readable file.\<close>

definition notes_fs :: "string \<Rightarrow> string list option" where
  "notes_fs path = (if path = ''notes.txt'' then Some [''int x = 42;'', ''''] else None)"

definition dotted_fs :: "string \<Rightarrow> string list option" where
  "dotted_fs path = (if path = ''dir.v2/main'' then Some [''int x = 42;''] else None)"

section \<open>Properties\<close>

subsection \<open>The matcher\<close>

text \<open>
  The bound on the iterations of \<open>star\<close> never cuts a match off: more fuel than the
  number of remaining characters changes nothing, and \<open>matches (Star a)\<close> satisfies the
  unfolding equation of a greedy repetition whose iterations consume at least one character.
\<close>

lemma star_extra_fuel: "length (snd x) \<le> n \<Longrightarrow> star f (Suc n) x = star f n x"
proof (induction n arbitrary: x)
  case 0
  then show ?case by simp
next
  case (Suc n)
  have "star f (Suc n) y = star f n y" if "length (snd y) < length (snd x)" for y
    using that Suc.prems by (intro Suc.IH) simp
  then have eq: "map (star f (Suc n)) (filter (\<lambda>y. length (snd y) < length (snd x)) (f x))
      = map (star f n) (filter (\<lambda>y. length (snd y) < length (snd x)) (f x))"
    by (intro map_cong) simp_all
  have "star f (Suc (Suc n)) x
      = concat (map (star f (Suc n)) (filter (\<lambda>y. length (snd y) < length (snd x)) (f x))) @ [x]"
    by (rule star.simps(2))
  also have "\<dots> = concat (map (star f n) (filter (\<lambda>y. length (snd y) < length (snd x)) (f x))) @ [x]"
    by (simp only: eq)
  also have "\<dots> = star f (Suc n) x"
    by (rule star.simps(2) [symmetric])
  finally show ?case .
qed

lemma star_enough_fuel: "length (snd x) \<le> n \<Longrightarrow> star f n x = star f (length (snd x)) x"
proof (induction n)
  case 0
  then show ?case by simp
next
  case (Suc n)
  show ?case
  proof (cases "length (snd x) \<le> n")
    case True
    with Suc.IH star_extra_fuel [of x n f] show ?thesis by simp
  next
    case False
    with Suc.prems have "length (snd x) = Suc n" by simp
    then show ?thesis by simp
  qed
qed

lemma matches_Star_unfold:
  "matches (Star a) x =
     concat (map (matches (Star a)) (filter (\<lambda>y. length (snd y) < length (snd x)) (matches a x)))
       @ [x]"
proof (cases "length (snd x)")
  case 0
  then show ?thesis by simp
next
  case (Suc k)
  have "star (matches a) k y = matches (Star a) y" if "length (snd y) < length (snd x)" for y
    using that Suc star_enough_fuel [of y k "matches a"] by simp
  then have eq: "map (star (matches a) k) (filter (\<lambda>y. length (snd y) < length (snd x)) (matches a x))
      = map (matches (Star a)) (filter (\<lambda>y. length (snd y) < length (snd x)) (matches a x))"
    by (intro map_cong) simp_all
  have "matches (Star a) x = star (matches a) (Suc k) x"
    using Suc by simp
  also have "\<dots> = concat (map (star (matches a) k)
      (filter (\<lambda>y. length (snd y) < length (snd x)) (matches a x))) @ [x]"
    by (rule star.simps(2))
  finally show ?thesis
    by (simp only: eq)
qed

lemma eat_length: "y \<in> set (eat P x) \<Longrightarrow> Suc (length (snd y)) = length (snd x)"
  by (cases "(P, x)" rule: eat.cases) (auto split: if_splits)

lemma star_length:
  "y \<in> set (star f n x) \<Longrightarrow> length (snd y) \<le> length (snd x)"
proof (induction n arbitrary: x)
  case 0
  then show ?case by simp
next
  case (Suc n)
  from Suc.prems consider "y = x"
    | z where "z \<in> set (f x)" "length (snd z) < length (snd x)" "y \<in> set (star f n z)"
    by auto
  then show ?case
  proof cases
    case 1
    then show ?thesis by simp
  next
    case 2
    with Suc.IH [of z] show ?thesis by simp
  qed
qed

lemma matches_min_len:
  "y \<in> set (matches r x) \<Longrightarrow> length (snd y) + min_len r \<le> length (snd x)"
proof (induction r arbitrary: x y)
  case (Cat a b)
  then obtain z where "z \<in> set (matches a x)" "y \<in> set (matches b z)" by auto
  with Cat.IH [of z x] Cat.IH(2) [of y z] show ?case by simp
next
  case (Alt a b)
  from Alt.prems have "y \<in> set (matches a x) \<or> y \<in> set (matches b x)" by simp
  with Alt.IH show ?case by fastforce
next
  case (Star a)
  then show ?case by (simp add: star_length)
next
  case (Lit c)
  then show ?case using eat_length [of y _ x] by simp
next
  case Dot
  then show ?case using eat_length [of y _ x] by simp
next
  case (OneOf cs)
  then show ?case using eat_length [of y _ x] by simp
next
  case (NoneOf cs)
  then show ?case using eat_length [of y _ x] by simp
qed (simp_all split: if_splits)

lemma search_from_range:
  "search_from r pos (prev, rest) = Some (p, l) \<Longrightarrow>
     pos \<le> p \<and> (p - pos) + l \<le> length rest \<and> min_len r \<le> l"
proof (induction rest arbitrary: pos prev)
  case Nil
  then show ?case
    using matches_min_len [of _ r "(prev, [])"]
    by (auto split: list.splits)
next
  case (Cons c cs)
  show ?case
  proof (cases "matches r (prev, c # cs)")
    case Nil
    with Cons.prems have "search_from r (Suc pos) (Some c, cs) = Some (p, l)" by simp
    from Cons.IH [OF this] show ?thesis by auto
  next
    case (Cons y ys)
    then have "y \<in> set (matches r (prev, c # cs))" by simp
    from matches_min_len [OF this] Cons Cons.prems show ?thesis by auto
  qed
qed

lemma regex_search_range:
  "regex_search s r = Some (p, l) \<Longrightarrow> p + l \<le> length s \<and> min_len r \<le> l"
  using search_from_range [of r 0 None s p l] by (simp add: regex_search_def)

subsection \<open>The matcher on examples\<close>

text \<open>
  The alternation of the keywords backtracks from \<^verbatim>\<open>do\<close> to \<^verbatim>\<open>double\<close>; the word
  boundaries reject a keyword inside an identifier; the optional fraction of a number is
  given up when no boundary follows it; an escaped quote does not end a string; \<^verbatim>\<open>.\<close>
  does not match a carriage return; \<^verbatim>\<open>$\<close> matches, with length 0, at the end only.
\<close>

lemma keyword_alternation_backtracks:
  "regex_search ''double'' (keyword_re cpp_keywords) = Some (0, 6)"
  by code_simp

lemma keyword_whole_words_only:
  "regex_search ''integer print'' (keyword_re cpp_keywords) = None"
  by code_simp

lemma number_optional_fraction:
  "regex_search ''x 4.25 '' number_re = Some (2, 4)"
  "regex_search ''x 4.5e '' number_re = Some (2, 1)"
  "regex_search ''x1 y2'' number_re = None"
  by code_simp+

lemma string_with_escaped_quote:
  "regex_search (''a'' @ [dquote] @ ''b'' @ [backslash, dquote] @ ''c'' @ [dquote] @ ''d'')
     (c_string_re dquote) = Some (1, 6)"
  "regex_search (''a'' @ [dquote] @ ''b'' @ [backslash, dquote] @ ''c'' @ [dquote] @ ''d'')
     (py_string_re dquote) = Some (1, 6)"
  by code_simp+

lemma comment_to_end_of_line:
  "regex_search ''x; // a // b'' (comment_re ''//'') = Some (3, 9)"
  "regex_search (''// a'' @ [carriage_return]) (comment_re ''//'') = None"
  by code_simp+

lemma end_of_line_empty_match: "regex_search ''ab'' Eol = Some (2, 0)"
  by code_simp

subsection \<open>The rule loop\<close>

lemma find_earliest_snoc:
  "find_earliest (rules @ [r]) rem = consider_rule rem (find_earliest rules rem) r"
  by (simp add: find_earliest_def)

lemma find_earliest_Nil: "find_earliest [] rem = None"
  by (simp add: find_earliest_def)

lemma find_earliest_None:
  "find_earliest rules rem = None \<longleftrightarrow> (\<forall>r\<in>set rules. regex_search rem (pattern r) = None)"
proof (induction rules rule: rev_induct)
  case Nil
  then show ?case by (simp add: find_earliest_Nil)
next
  case (snoc r rules)
  then show ?case
    by (auto simp: find_earliest_snoc split: option.splits if_splits)
qed

lemma find_earliest_Some:
  "find_earliest rules rem = Some (p, l, c) \<Longrightarrow>
     \<exists>i<length rules.
       regex_search rem (pattern (rules ! i)) = Some (p, l) \<and> color_code (rules ! i) = c \<and>
       (\<forall>j<length rules. \<forall>q m. regex_search rem (pattern (rules ! j)) = Some (q, m) \<longrightarrow>
          p < q \<or> (p = q \<and> i \<le> j))"
proof (induction rules arbitrary: p l c rule: rev_induct)
  case Nil
  then show ?case by (simp add: find_earliest_Nil)
next
  case (snoc r rules)
  let ?n = "length rules"
  show ?case
  proof (cases "regex_search rem (pattern r)")
    case None
    with snoc.prems have "find_earliest rules rem = Some (p, l, c)"
      by (simp add: find_earliest_snoc)
    from snoc.IH [OF this] obtain i where i: "i < ?n"
      "regex_search rem (pattern (rules ! i)) = Some (p, l)" "color_code (rules ! i) = c"
      "\<forall>j<?n. \<forall>q m. regex_search rem (pattern (rules ! j)) = Some (q, m) \<longrightarrow>
          p < q \<or> (p = q \<and> i \<le> j)"
      by blast
    have "\<forall>j<Suc ?n. \<forall>q m. regex_search rem (pattern ((rules @ [r]) ! j)) = Some (q, m) \<longrightarrow>
          p < q \<or> (p = q \<and> i \<le> j)"
      using i(4) None by (auto simp: nth_append less_Suc_eq)
    with i(1-3) show ?thesis
      by (intro exI [of _ i]) (simp add: nth_append)
  next
    case (Some qm)
    obtain q m where qm: "qm = (q, m)" by (cases qm)
    show ?thesis
    proof (cases "find_earliest rules rem")
      case None
      with snoc.prems Some qm have eq: "p = q" "l = m" "c = color_code r"
        by (simp_all add: find_earliest_snoc)
      from None have no: "\<forall>j<?n. regex_search rem (pattern (rules ! j)) = None"
        by (simp add: find_earliest_None)
      have "\<forall>j<Suc ?n. \<forall>q' m'. regex_search rem (pattern ((rules @ [r]) ! j)) = Some (q', m') \<longrightarrow>
          p < q' \<or> (p = q' \<and> ?n \<le> j)"
        using no Some qm eq by (auto simp: nth_append less_Suc_eq)
      with Some qm eq show ?thesis
        by (intro exI [of _ ?n]) simp
    next
      case (Some e)
      obtain p0 l0 c0 where e: "e = (p0, l0, c0)" by (cases e)
      from snoc.IH [of p0 l0 c0] Some e obtain i where i: "i < ?n"
        "regex_search rem (pattern (rules ! i)) = Some (p0, l0)" "color_code (rules ! i) = c0"
        "\<forall>j<?n. \<forall>q m. regex_search rem (pattern (rules ! j)) = Some (q, m) \<longrightarrow>
            p0 < q \<or> (p0 = q \<and> i \<le> j)"
        by blast
      show ?thesis
      proof (cases "q < p0")
        case True
        with snoc.prems Some e \<open>regex_search rem (pattern r) = Some qm\<close> qm
        have eq: "p = q" "l = m" "c = color_code r"
          by (simp_all add: find_earliest_snoc)
        have "\<forall>j<Suc ?n. \<forall>q' m'. regex_search rem (pattern ((rules @ [r]) ! j)) = Some (q', m') \<longrightarrow>
            p < q' \<or> (p = q' \<and> ?n \<le> j)"
          using i(4) True eq \<open>regex_search rem (pattern r) = Some qm\<close> qm
          by (fastforce simp: nth_append less_Suc_eq)
        with \<open>regex_search rem (pattern r) = Some qm\<close> qm eq show ?thesis
          by (intro exI [of _ ?n]) simp
      next
        case False
        with snoc.prems Some e \<open>regex_search rem (pattern r) = Some qm\<close> qm
        have eq: "p = p0" "l = l0" "c = c0"
          by (simp_all add: find_earliest_snoc)
        have "\<forall>j<Suc ?n. \<forall>q' m'. regex_search rem (pattern ((rules @ [r]) ! j)) = Some (q', m') \<longrightarrow>
            p < q' \<or> (p = q' \<and> i \<le> j)"
          using i(1,4) False eq \<open>regex_search rem (pattern r) = Some qm\<close> qm
          by (fastforce simp: nth_append less_Suc_eq)
        with i(1-3) eq show ?thesis
          by (intro exI [of _ i]) (simp add: nth_append)
      qed
    qed
  qed
qed

subsection \<open>The scan loop\<close>

lemma plain_text_append: "plain_text (xs @ ys) = plain_text xs @ plain_text ys"
  by (simp add: plain_text_def)

lemma take_take_drop: "take p xs @ take l (drop p xs) @ drop (p + l) xs = xs"
proof -
  have "take l (drop p xs) @ drop (p + l) xs = drop p xs"
    by (metis append_take_drop_id drop_drop add.commute)
  then show ?thesis by simp
qed

lemma scan_loop_text:
  assumes "scan_loop rules0 rem0 out0 = Some res0"
  shows "plain_text res0 = plain_text out0 @ rem0"
proof (rule scan_loop.raw_induct
    [where P = "\<lambda>rules rem out res. plain_text res = plain_text out @ rem", OF _ assms])
  fix f :: "HighlightRule list \<Rightarrow> string \<Rightarrow> span list \<Rightarrow> span list option"
    and rules rem out res
  assume IH: "\<And>rs s acc y. f rs s acc = Some y \<Longrightarrow> plain_text y = plain_text acc @ s"
  assume step: "(if rem = [] then Some out
      else case find_earliest rules rem of
        None \<Rightarrow> Some (out @ [Plain rem])
      | Some (earliest_pos, earliest_len, color) \<Rightarrow>
          f rules (drop (earliest_pos + earliest_len) rem)
            (out
              @ (if earliest_pos > 0 then [Plain (take earliest_pos rem)] else [])
              @ [Colored color (take earliest_len (drop earliest_pos rem))])) = Some res"
  show "plain_text res = plain_text out @ rem"
  proof (cases "rem = []")
    case True
    with step show ?thesis by simp
  next
    case False
    show ?thesis
    proof (cases "find_earliest rules rem")
      case None
      with False step show ?thesis by (auto simp: plain_text_def)
    next
      case (Some e)
      obtain p l c where e: "e = (p, l, c)" by (cases e)
      let ?out = "out @ (if 0 < p then [Plain (take p rem)] else []) @ [Colored c (take l (drop p rem))]"
      from False Some e step have "f rules (drop (p + l) rem) ?out = Some res" by simp
      from IH [OF this] have "plain_text res = plain_text ?out @ drop (p + l) rem" .
      also have "plain_text ?out = plain_text out @ take p rem @ take l (drop p rem)"
        by (simp add: plain_text_def)
      finally show ?thesis
        using take_take_drop [of p rem l] by simp
    qed
  qed
qed

lemma scan_loop_returns:
  assumes "\<forall>k<length rem. \<forall>r\<in>set rules. regex_search (drop k rem) (pattern r) \<noteq> Some (0, 0)"
  shows "\<exists>res. scan_loop rules rem out = Some res"
  using assms
proof (induction "length rem" arbitrary: rem out rule: less_induct)
  case less
  show ?case
  proof (cases "rem = []")
    case True
    then show ?thesis by (simp add: scan_loop.simps)
  next
    case False
    show ?thesis
    proof (cases "find_earliest rules rem")
      case None
      with False show ?thesis by (simp add: scan_loop.simps)
    next
      case (Some e)
      obtain p l c where e: "e = (p, l, c)" by (cases e)
      from find_earliest_Some [of rules rem p l c] Some e
      obtain i where i: "i < length rules" "regex_search rem (pattern (rules ! i)) = Some (p, l)"
        by blast
      from regex_search_range [OF i(2)] have range: "p + l \<le> length rem" by simp
      from less.prems False i have "(p, l) \<noteq> (0, 0)"
        by (metis drop0 length_greater_0_conv nth_mem)
      then have pos: "0 < p + l" by simp
      let ?rem = "drop (p + l) rem"
      let ?out = "out @ (if 0 < p then [Plain (take p rem)] else []) @ [Colored c (take l (drop p rem))]"
      have shorter: "length ?rem < length rem"
        using pos False by simp
      have "\<forall>k<length ?rem. \<forall>r\<in>set rules. regex_search (drop k ?rem) (pattern r) \<noteq> Some (0, 0)"
      proof (intro allI impI ballI)
        fix k r
        assume k: "k < length ?rem" and r: "r \<in> set rules"
        then have "k + (p + l) < length rem" by simp
        with less.prems r have "regex_search (drop (k + (p + l)) rem) (pattern r) \<noteq> Some (0, 0)"
          by blast
        then show "regex_search (drop k ?rem) (pattern r) \<noteq> Some (0, 0)"
          by (simp add: add.commute)
      qed
      from less.hyps [OF shorter this, of ?out]
      obtain res where "scan_loop rules ?rem ?out = Some res" by blast
      with False Some e show ?thesis
        by (subst scan_loop.simps) simp
    qed
  qed
qed

subsection \<open>The catalogue\<close>

lemma rgb_keyword: "keyword_color = esc # ''[38;2;0;136;255m''"
  by (simp add: keyword_color_def rgb_def to_string_def decimal.simps digit_char_def digit_chars_def)

lemma rgb_string: "string_color = esc # ''[38;2;255;136;0m''"
  by (simp add: string_color_def rgb_def to_string_def decimal.simps digit_char_def digit_chars_def)

lemma rgb_comment: "comment_color = esc # ''[38;2;136;136;136m''"
  by (simp add: comment_color_def rgb_def to_string_def decimal.simps digit_char_def digit_chars_def)

lemma rgb_number: "number_color = esc # ''[38;2;255;0;255m''"
  by (simp add: number_color_def rgb_def to_string_def decimal.simps digit_char_def digit_chars_def)

lemma colors_distinct:
  "distinct [keyword_color, string_color, comment_color, number_color]"
  by (simp add: rgb_keyword rgb_string rgb_comment rgb_number)

lemma min_len_str: "min_len (str s) = length s"
  by (induction s) simp_all

lemma min_len_alts: "\<forall>r\<in>set rs. 0 < min_len r \<Longrightarrow> 0 < min_len (alts rs)"
  by (induction rs rule: alts.induct) simp_all

lemma min_len_keyword_re: "[] \<notin> set kws \<Longrightarrow> 0 < min_len (keyword_re kws)"
  unfolding keyword_re_def
  using min_len_alts [of "map str kws"] by (auto simp: min_len_str)

lemma min_len_c_rules: "r \<in> set c_rules \<Longrightarrow> 0 < min_len (pattern r)"
  using min_len_keyword_re [of cpp_keywords]
  by (auto simp: c_rules_def cpp_keywords_def c_string_re_def comment_re_def number_re_def)

lemma min_len_py_rules: "r \<in> set py_rules \<Longrightarrow> 0 < min_len (pattern r)"
  using min_len_keyword_re [of py_keywords]
  by (auto simp: py_rules_def py_keywords_def py_string_re_def comment_re_def number_re_def)

lemma min_len_catalogue: "r \<in> set (getHighlightRules ext) \<Longrightarrow> 0 < min_len (pattern r)"
  by (auto simp: getHighlightRules_def min_len_c_rules min_len_py_rules split: if_splits)

lemma no_empty_match: "0 < min_len r \<Longrightarrow> regex_search s r \<noteq> Some (p, 0)"
  using regex_search_range [of s r p 0] by auto

subsection \<open>Lines and files\<close>

lemma scan_loop_no_rules: "scan_loop [] rem out = Some (if rem = [] then out else out @ [Plain rem])"
  by (subst scan_loop.simps) (simp add: find_earliest_Nil)

lemma highlightAndPrintLine_text:
  "highlight_spans L R = Some spans \<Longrightarrow>
     plain_text spans = L \<and> highlightAndPrintLine L R = Some (render spans @ [newline])"
  using scan_loop_text [of R L "[]" spans]
  by (simp add: highlight_spans_def highlightAndPrintLine_def plain_text_def)

lemma highlightAndPrintLine_no_rules: "highlightAndPrintLine L [] = Some (L @ [newline])"
  by (simp add: highlightAndPrintLine_def highlight_spans_def scan_loop_no_rules render_def)

lemma print_lines_no_rules:
  "print_lines [] lines = Some (concat (map (\<lambda>l. l @ [newline]) lines))"
  by (induction lines) (simp_all add: highlightAndPrintLine_no_rules)

lemma catalogue_returns: "\<exists>spans. highlight_spans L (getHighlightRules ext) = Some spans"
  unfolding highlight_spans_def
  by (rule scan_loop_returns) (simp add: min_len_catalogue no_empty_match)

lemma print_lines_returns: "\<exists>printed. print_lines (getHighlightRules ext) lines = Some printed"
proof (induction lines)
  case Nil
  then show ?case by simp
next
  case (Cons l ls)
  from catalogue_returns [of l ext] obtain spans
    where "highlight_spans l (getHighlightRules ext) = Some spans" ..
  with Cons show ?case by (auto simp: highlightAndPrintLine_def)
qed

lemma main_returns: "\<exists>result. main prog args fs = Some result"
  using print_lines_returns
  by (auto simp: main_def split: list.splits option.splits)

lemma star_x_empty_match: "find_earliest [star_x_rule] ''a'' = Some (0, 0, keyword_color)"
  by (simp add: find_earliest_def star_x_rule_def regex_search_def)

lemma scan_loop_star_x: "scan_loop [star_x_rule] ''a'' out0 = None"
proof (rule ccontr)
  assume "scan_loop [star_x_rule] ''a'' out0 \<noteq> None"
  then obtain res0 where res0: "scan_loop [star_x_rule] ''a'' out0 = Some res0" by blast
  show False
  proof (rule scan_loop.raw_induct
      [where P = "\<lambda>rules rem out res. \<not> (rules = [star_x_rule] \<and> rem = ''a'')", OF _ res0, simplified])
    fix f :: "HighlightRule list \<Rightarrow> string \<Rightarrow> span list \<Rightarrow> span list option"
      and rules rem out res
    assume IH: "\<And>rs s acc y. f rs s acc = Some y \<Longrightarrow> rs = [star_x_rule] \<longrightarrow> s \<noteq> ''a''"
    assume step: "(if rem = [] then Some out
      else case find_earliest rules rem of
        None \<Rightarrow> Some (out @ [Plain rem])
      | Some (earliest_pos, earliest_len, color) \<Rightarrow>
          f rules (drop (earliest_pos + earliest_len) rem)
            (out
              @ (if earliest_pos > 0 then [Plain (take earliest_pos rem)] else [])
              @ [Colored color (take earliest_len (drop earliest_pos rem))])) = Some res"
    show "rules = [star_x_rule] \<longrightarrow> rem \<noteq> ''a''"
    proof (intro impI notI)
      assume "rules = [star_x_rule]" "rem = ''a''"
      with step have "f [star_x_rule] ''a'' (out @ [Colored keyword_color []]) = Some res"
        by (simp add: star_x_empty_match)
      from IH [OF this] show False by simp
    qed
  qed
qed

lemma find_earliest_winner:
  assumes a: "a < length rules"
    and match: "regex_search rem (pattern (rules ! a)) = Some (i, n)"
    and lowest: "\<forall>j<length rules. \<forall>q m.
        regex_search rem (pattern (rules ! j)) = Some (q, m) \<longrightarrow> i \<le> q"
    and first: "\<forall>j<a. \<forall>m. regex_search rem (pattern (rules ! j)) \<noteq> Some (i, m)"
  shows "find_earliest rules rem = Some (i, n, color_code (rules ! a))"
proof -
  from a have "rules ! a \<in> set rules" by simp
  with match have "find_earliest rules rem \<noteq> None"
    by (auto simp: find_earliest_None)
  then obtain p l c where found: "find_earliest rules rem = Some (p, l, c)"
    by (cases "find_earliest rules rem") auto
  from find_earliest_Some [OF this] obtain w where w: "w < length rules"
    "regex_search rem (pattern (rules ! w)) = Some (p, l)" "color_code (rules ! w) = c"
    "\<forall>j<length rules. \<forall>q m. regex_search rem (pattern (rules ! j)) = Some (q, m) \<longrightarrow>
        p < q \<or> (p = q \<and> w \<le> j)"
    by blast
  from lowest w(1,2) have "i \<le> p" by blast
  moreover from w(4) a match have "p < i \<or> (p = i \<and> w \<le> a)" by blast
  ultimately have "p = i" "w \<le> a" by auto
  have "w = a"
  proof (rule ccontr)
    assume "w \<noteq> a"
    with \<open>w \<le> a\<close> have "w < a" by simp
    with first w(2) \<open>p = i\<close> show False by blast
  qed
  with w(2,3) match found \<open>p = i\<close> show ?thesis by simp
qed

lemma tie_rules_length: "length tie_rules = 3"
  by (simp add: tie_rules_def)

lemma tie_rules_colors:
  "color_code (tie_rules ! 0) = comment_color"
  "color_code (tie_rules ! 1) = keyword_color"
  "color_code (tie_rules ! 2) = string_color"
  by (simp_all add: tie_rules_def)

lemma tie_rules_matches:
  "regex_search ''a double x'' (pattern (tie_rules ! 0)) = Some (9, 1)"
  "regex_search ''a double x'' (pattern (tie_rules ! 1)) = Some (2, 2)"
  "regex_search ''a double x'' (pattern (tie_rules ! 2)) = Some (2, 6)"
  by code_simp+

lemma c_rules_first_match: "find_earliest c_rules ''x = 42;'' = Some (4, 2, number_color)"
  by code_simp

lemma c_rules_scenario:
  "scan_loop c_rules ''int x = 42; // comment'' [] =
     Some [Colored keyword_color ''int'', Plain '' x = '', Colored number_color ''42'',
           Plain ''; '', Colored comment_color ''// comment'']"
  by code_simp

lemma py_rules_scenario:
  "scan_loop py_rules (''s = '' @ [dquote] @ ''value 123'' @ [dquote]) [] =
     Some [Plain ''s = '', Colored string_color ([dquote] @ ''value 123'' @ [dquote])]"
  by code_simp

lemma py_number_inside_string:
  "regex_search (''s = '' @ [dquote] @ ''value 123'' @ [dquote]) number_re = Some (11, 3)"
  by code_simp

subsection \<open>Removing the markers from the bytes\<close>

text \<open>
  When the colour codes of the rules are markers, as those of the catalogue are, and the
  line has no escape character, removing the markers from the bytes written for the line
  gives the line and its terminator.
\<close>

lemma strip_markers_plain: "esc \<notin> set t \<Longrightarrow> strip_markers (t @ rest) = t @ strip_markers rest"
  by (induction t) auto

lemma dropWhile_params:
  "list_all (\<lambda>c. c \<in> set sgr_params) ps \<Longrightarrow>
     dropWhile (\<lambda>x. x \<noteq> CHR ''m'') (ps @ CHR ''m'' # rest) = CHR ''m'' # rest"
  by (induction ps) (auto simp: sgr_params_def)

lemma strip_markers_marker:
  assumes "is_marker c"
  shows "strip_markers (c @ rest) = strip_markers rest"
proof -
  from assms obtain body where c: "c = esc # CHR ''['' # body" and body: "body \<noteq> []"
    "last body = CHR ''m''" "list_all (\<lambda>c. c \<in> set sgr_params) (butlast body)"
    by (cases c rule: is_marker.cases) auto
  from body(1,2) have split: "body = butlast body @ [CHR ''m'']"
    by (metis append_butlast_last_id)
  have "dropWhile (\<lambda>x. x \<noteq> CHR ''m'') (CHR ''['' # body @ rest)
      = dropWhile (\<lambda>x. x \<noteq> CHR ''m'') (butlast body @ CHR ''m'' # rest)"
    by (subst split) simp
  also have "\<dots> = CHR ''m'' # rest"
    using body(3) by (rule dropWhile_params)
  finally show ?thesis
    by (simp add: c)
qed

lemma is_marker_reset: "is_marker reset"
  by (simp add: reset_def sgr_params_def)

lemma is_marker_catalogue: "r \<in> set (getHighlightRules ext) \<Longrightarrow> is_marker (color_code r)"
  by (auto simp: getHighlightRules_def c_rules_def py_rules_def rgb_keyword rgb_string
      rgb_comment rgb_number sgr_params_def split: if_splits)

lemma strip_markers_render:
  "list_all clean_span spans \<Longrightarrow>
     strip_markers (render spans @ rest) = plain_text spans @ strip_markers rest"
proof (induction spans)
  case Nil
  then show ?case by (simp add: render_def plain_text_def)
next
  case (Cons sp spans)
  then have IH: "strip_markers (render spans @ rest) = plain_text spans @ strip_markers rest"
    by simp
  show ?case
  proof (cases sp)
    case (Plain t)
    with Cons.prems have "esc \<notin> set t" by simp
    from strip_markers_plain [OF this, of "render spans @ rest"] IH Plain
    show ?thesis by (simp add: render_def plain_text_def)
  next
    case (Colored c t)
    with Cons.prems have c: "is_marker c" and t: "esc \<notin> set t" by simp_all
    have "strip_markers (render (sp # spans) @ rest)
        = strip_markers (c @ (t @ (reset @ (render spans @ rest))))"
      using Colored by (simp add: render_def)
    also have "\<dots> = strip_markers (t @ (reset @ (render spans @ rest)))"
      using c by (rule strip_markers_marker)
    also have "\<dots> = t @ strip_markers (reset @ (render spans @ rest))"
      using t by (rule strip_markers_plain)
    also have "\<dots> = t @ strip_markers (render spans @ rest)"
      using is_marker_reset by (simp only: strip_markers_marker)
    finally show ?thesis
      using IH Colored by (simp add: plain_text_def)
  qed
qed

lemma scan_loop_clean:
  assumes "scan_loop rules0 rem0 out0 = Some res0"
  shows "(\<forall>r\<in>set rules0. is_marker (color_code r)) \<longrightarrow> esc \<notin> set rem0 \<longrightarrow>
         list_all clean_span out0 \<longrightarrow> list_all clean_span res0"
proof (rule scan_loop.raw_induct
    [where P = "\<lambda>rules rem out res. (\<forall>r\<in>set rules. is_marker (color_code r)) \<longrightarrow>
        esc \<notin> set rem \<longrightarrow> list_all clean_span out \<longrightarrow> list_all clean_span res", OF _ assms])
  fix f :: "HighlightRule list \<Rightarrow> string \<Rightarrow> span list \<Rightarrow> span list option"
    and rules rem out res
  assume IH: "\<And>rs s acc y. f rs s acc = Some y \<Longrightarrow>
      (\<forall>r\<in>set rs. is_marker (color_code r)) \<longrightarrow> esc \<notin> set s \<longrightarrow>
      list_all clean_span acc \<longrightarrow> list_all clean_span y"
  assume step: "(if rem = [] then Some out
      else case find_earliest rules rem of
        None \<Rightarrow> Some (out @ [Plain rem])
      | Some (earliest_pos, earliest_len, color) \<Rightarrow>
          f rules (drop (earliest_pos + earliest_len) rem)
            (out
              @ (if earliest_pos > 0 then [Plain (take earliest_pos rem)] else [])
              @ [Colored color (take earliest_len (drop earliest_pos rem))])) = Some res"
  show "(\<forall>r\<in>set rules. is_marker (color_code r)) \<longrightarrow> esc \<notin> set rem \<longrightarrow>
      list_all clean_span out \<longrightarrow> list_all clean_span res"
  proof (intro impI)
    assume markers: "\<forall>r\<in>set rules. is_marker (color_code r)"
      and rem: "esc \<notin> set rem" and out: "list_all clean_span out"
    show "list_all clean_span res"
    proof (cases "rem = []")
      case True
      with step out show ?thesis by simp
    next
      case False
      show ?thesis
      proof (cases "find_earliest rules rem")
        case None
        with False step out rem show ?thesis by auto
      next
        case (Some e)
        obtain p l c where e: "e = (p, l, c)" by (cases e)
        from find_earliest_Some [of rules rem p l c] Some e
        obtain i where "i < length rules" "color_code (rules ! i) = c" by blast
        with markers have c: "is_marker c" by (metis nth_mem)
        let ?out = "out @ (if 0 < p then [Plain (take p rem)] else [])
            @ [Colored c (take l (drop p rem))]"
        from False Some e step have call: "f rules (drop (p + l) rem) ?out = Some res" by simp
        have "esc \<notin> set (take p rem)" "esc \<notin> set (take l (drop p rem))"
          "esc \<notin> set (drop (p + l) rem)"
          using rem by (auto dest: in_set_takeD in_set_dropD)
        with out c have "list_all clean_span ?out" by simp
        with IH [OF call] markers \<open>esc \<notin> set (drop (p + l) rem)\<close> show ?thesis by blast
      qed
    qed
  qed
qed

lemma strip_markers_output:
  assumes "\<forall>r\<in>set R. is_marker (color_code r)" and "esc \<notin> set L"
    and "highlightAndPrintLine L R = Some bytes"
  shows "strip_markers bytes = L @ [newline]"
proof -
  from assms(3) obtain spans where spans: "highlight_spans L R = Some spans"
    and bytes: "bytes = render spans @ [newline]"
    by (auto simp: highlightAndPrintLine_def)
  from spans have "plain_text spans = L"
    by (simp add: highlightAndPrintLine_text)
  moreover from spans assms(1,2) have "list_all clean_span spans"
    using scan_loop_clean [of R L "[]" spans] by (simp add: highlight_spans_def)
  moreover have "strip_markers [newline] = [newline]"
    by (simp add: newline_def esc_def)
  ultimately show ?thesis
    using strip_markers_render [of spans "[newline]"] bytes by simp
qed

subsection \<open>The extension and the program\<close>

lemma find_last_of_None: "find_last_of s c = None \<longleftrightarrow> c \<notin> set s"
  by (induction s) (auto split: option.splits)

lemma find_last_of_append:
  "c \<notin> set e \<Longrightarrow> find_last_of (pre @ c # e) c = Some (length pre)"
proof (induction pre)
  case Nil
  then have "find_last_of e c = None" by (simp add: find_last_of_None)
  then show ?case by simp
next
  case (Cons x pre)
  then show ?case by simp
qed

lemma getFileExtension_no_dot: "CHR ''.'' \<notin> set filename \<Longrightarrow> getFileExtension filename = []"
  using find_last_of_None [of filename "CHR ''.''"] by (simp add: getFileExtension_def)

lemma getFileExtension_last_dot:
  "CHR ''.'' \<notin> set e \<Longrightarrow> getFileExtension (pre @ CHR ''.'' # e) = e"
  by (simp add: getFileExtension_def find_last_of_append)

lemma c_rules_not_empty: "c_rules \<noteq> []"
  by (simp add: c_rules_def)

lemma py_rules_not_empty: "py_rules \<noteq> []"
  by (simp add: py_rules_def)

lemma getHighlightRules_supported: "getHighlightRules ext \<noteq> [] \<longleftrightarrow> ext \<in> supported"
  by (auto simp: getHighlightRules_def supported_def c_rules_not_empty py_rules_not_empty)

lemma main_file:
  "fs filename = Some lines \<Longrightarrow>
     main prog (filename # extra) fs =
       map_option (\<lambda>printed. \<lparr>exit_code = 0, stdout = printed, stderr = []\<rparr>)
         (print_lines (getHighlightRules (getFileExtension filename)) lines)"
  by (simp add: main_def)

lemma main_plain:
  "fs filename = Some lines \<Longrightarrow> getHighlightRules (getFileExtension filename) = [] \<Longrightarrow>
     main prog (filename # extra) fs =
       Some \<lparr>exit_code = 0, stdout = concat (map (\<lambda>l. l @ [newline]) lines), stderr = []\<rparr>"
  by (simp add: main_file print_lines_no_rules)

section \<open>The claims\<close>

subsection \<open>Content preservation\<close>

text \<open>
  C1. Whenever \<^verbatim>\<open>highlightAndPrintLine\<close> returns for a line \<open>L\<close> and a rule set \<open>R\<close>,
  the text of the spans it has emitted, in order, is \<open>L\<close>: the plain and coloured spans
  tile the line from left to right without gap, overlap or repetition, and the bytes
  written are these spans, each coloured one between its colour code and the reset
  sequence, followed by one line terminator. It returns whenever no pattern of \<open>R\<close> has
  an empty match at the very start of a non-empty suffix of \<open>L\<close>.
\<close>

theorem content_preservation:
  "(\<forall>spans. highlight_spans L R = Some spans \<longrightarrow>
      plain_text spans = L \<and> highlightAndPrintLine L R = Some (render spans @ [newline])) \<and>
   ((\<forall>k<length L. \<forall>r\<in>set R. regex_search (drop k L) (pattern r) \<noteq> Some (0, 0)) \<longrightarrow>
      highlight_spans L R \<noteq> None)"
proof (intro conjI allI impI)
  fix spans
  assume "highlight_spans L R = Some spans"
  then show "plain_text spans = L" "highlightAndPrintLine L R = Some (render spans @ [newline])"
    by (simp_all add: highlightAndPrintLine_text)
next
  assume "\<forall>k<length L. \<forall>r\<in>set R. regex_search (drop k L) (pattern r) \<noteq> Some (0, 0)"
  from scan_loop_returns [OF this, of "[]"] show "highlight_spans L R \<noteq> None"
    by (auto simp: highlight_spans_def)
qed

text \<open>The C rules on \<^verbatim>\<open>x = 42;\<close>: no rule has an empty match, and the spans tile the line.\<close>

theorem content_preservation_witness:
  "\<exists>spans. highlight_spans ''x = 42;'' c_rules = Some spans \<and> plain_text spans = ''x = 42;'' \<and>
      highlightAndPrintLine ''x = 42;'' c_rules = Some (render spans @ [newline])"
proof -
  have h: "\<forall>k<length ''x = 42;''. \<forall>r\<in>set c_rules.
      regex_search (drop k ''x = 42;'') (pattern r) \<noteq> Some (0, 0)"
    by (simp add: min_len_c_rules no_empty_match)
  with content_preservation [of "''x = 42;''" c_rules] show ?thesis
    by blast
qed

text \<open>
  With the rule \<^verbatim>\<open>x*\<close> the loop finds an empty match at index 0 of \<^verbatim>\<open>a\<close>, leaves
  \<^verbatim>\<open>remaining\<close> unchanged and never returns: no line terminator is ever written.
\<close>

theorem content_preservation_counterexample:
  "highlight_spans ''a'' [star_x_rule] = None \<and> highlightAndPrintLine ''a'' [star_x_rule] = None"
  by (simp add: highlightAndPrintLine_def highlight_spans_def scan_loop_star_x)

subsection \<open>Tie-break\<close>

text \<open>
  C2. In an iteration of the scan loop on the non-empty text \<open>rem\<close>, let \<open>i\<close> be the lowest
  index at which any rule's match starts, and let the rule at position \<open>a\<close> of the rule
  sequence be the first one whose match starts at \<open>i\<close>. Then the loop selects this rule,
  whatever the rules after it match at \<open>i\<close>: the span emitted at \<open>i\<close> carries its colour and
  has the length of its match.
\<close>

theorem tie_break:
  assumes "rem \<noteq> []"
    and "a < length rules"
    and "regex_search rem (pattern (rules ! a)) = Some (i, n)"
    and "\<forall>j<length rules. \<forall>q m.
        regex_search rem (pattern (rules ! j)) = Some (q, m) \<longrightarrow> i \<le> q"
    and "\<forall>j<a. \<forall>m. regex_search rem (pattern (rules ! j)) \<noteq> Some (i, m)"
  shows "find_earliest rules rem = Some (i, n, color_code (rules ! a)) \<and>
         scan_loop rules rem out =
           scan_loop rules (drop (i + n) rem)
             (out @ (if 0 < i then [Plain (take i rem)] else [])
                  @ [Colored (color_code (rules ! a)) (take n (drop i rem))])"
proof -
  have "find_earliest rules rem = Some (i, n, color_code (rules ! a))"
    using assms(2-5) by (rule find_earliest_winner)
  with assms(1) show ?thesis
    by (subst scan_loop.simps) simp
qed

text \<open>
  In \<^verbatim>\<open>a double x\<close> the rules \<^verbatim>\<open>do\<close> and \<^verbatim>\<open>double\<close> both match at index 2. The rule
  \<^verbatim>\<open>do\<close> comes first and wins, although the match of \<^verbatim>\<open>double\<close> is longer.
\<close>

theorem tie_break_witness:
  "regex_search ''a double x'' (pattern (tie_rules ! 1)) = Some (2, 2) \<and>
   regex_search ''a double x'' (pattern (tie_rules ! 2)) = Some (2, 6) \<and>
   find_earliest tie_rules ''a double x'' = Some (2, 2, keyword_color) \<and>
   scan_loop tie_rules ''a double x'' [] =
     scan_loop tie_rules ''uble x'' [Plain ''a '', Colored keyword_color ''do'']"
proof -
  have cases: "j = 0 \<or> j = 1 \<or> j = 2" if "j < length tie_rules" for j
    using that by (auto simp: tie_rules_length)
  have lowest: "\<forall>j<length tie_rules. \<forall>q m.
      regex_search ''a double x'' (pattern (tie_rules ! j)) = Some (q, m) \<longrightarrow> 2 \<le> q"
    using cases tie_rules_matches by fastforce
  have first: "\<forall>j<1. \<forall>m.
      regex_search ''a double x'' (pattern (tie_rules ! j)) \<noteq> Some (2, m)"
    using tie_rules_matches(1) by simp
  have "''a double x'' \<noteq> []" and "1 < length tie_rules"
    by (simp_all add: tie_rules_length)
  from tie_break [OF this tie_rules_matches(2) lowest first, of "[]"] show ?thesis
    by (simp add: tie_rules_matches tie_rules_colors del: One_nat_def)
qed

subsection \<open>The empty rule set\<close>

text \<open>
  C3. With the empty rule set, \<^verbatim>\<open>highlightAndPrintLine\<close> writes the line followed by one
  line terminator, for every line; for the empty line it writes the line terminator only.
  Nothing coloured is emitted: there is no span for the empty line, and one plain span
  otherwise.
\<close>

theorem empty_rule_set_identity:
  "highlightAndPrintLine L [] = Some (L @ [newline]) \<and>
   highlightAndPrintLine [] [] = Some [newline] \<and>
   highlight_spans L [] = Some (if L = [] then [] else [Plain L])"
  by (simp add: highlightAndPrintLine_no_rules highlight_spans_def scan_loop_no_rules)

subsection \<open>Scenarios\<close>

text \<open>
  C4. For the line \<^verbatim>\<open>int x = 42; // comment\<close> and the rule set of the extension
  \<^verbatim>\<open>cpp\<close>, which is also the rule set of \<^verbatim>\<open>hpp\<close>, \<^verbatim>\<open>c\<close> and \<^verbatim>\<open>h\<close>, the spans are
  \<^verbatim>\<open>int\<close> in the keyword colour, \<^verbatim>\<open> x = \<close> plain, \<^verbatim>\<open>42\<close> in the number colour, \<^verbatim>\<open>; \<close>
  plain and \<^verbatim>\<open>// comment\<close>, up to the end of the line, in the comment colour.
\<close>

theorem c_family_scenario:
  "highlight_spans scenario_c (getHighlightRules ''cpp'') =
     Some [Colored keyword_color ''int'', Plain '' x = '', Colored number_color ''42'',
           Plain ''; '', Colored comment_color ''// comment''] \<and>
   getHighlightRules ''hpp'' = getHighlightRules ''cpp'' \<and>
   getHighlightRules ''c'' = getHighlightRules ''cpp'' \<and>
   getHighlightRules ''h'' = getHighlightRules ''cpp''"
  by (simp add: highlight_spans_def scenario_c_def getHighlightRules_def c_rules_scenario)

text \<open>
  C5. For the line \<^verbatim>\<open>s = "value 123"\<close> and the Python rule set, the spans are \<^verbatim>\<open>s = \<close>
  plain and the whole of \<^verbatim>\<open>"value 123"\<close> in the string colour. The number pattern does
  match \<^verbatim>\<open>123\<close> at index 11 of the line, but no span is emitted for it.
\<close>

theorem string_swallows_number_scenario:
  "highlight_spans scenario_py (getHighlightRules ''py'') =
     Some [Plain ''s = '', Colored string_color ([dquote] @ ''value 123'' @ [dquote])] \<and>
   regex_search scenario_py number_re = Some (11, 3) \<and>
   take 3 (drop 11 scenario_py) = ''123''"
  using py_rules_scenario py_number_inside_string
  by (simp add: highlight_spans_def scenario_py_def getHighlightRules_def)

subsection \<open>Unsupported languages\<close>

text \<open>
  C6. For every extension other than \<^verbatim>\<open>cpp\<close>, \<^verbatim>\<open>hpp\<close>, \<^verbatim>\<open>c\<close>, \<^verbatim>\<open>h\<close> and \<^verbatim>\<open>py\<close>,
  \<^verbatim>\<open>getHighlightRules\<close> returns the empty sequence, every line is written unchanged with
  its line terminator, and a readable file with such an extension makes the program
  write its lines unchanged, write nothing to the error stream and exit with code 0.
\<close>

theorem unsupported_language:
  assumes "ext \<notin> supported"
  shows "getHighlightRules ext = [] \<and>
         highlightAndPrintLine L (getHighlightRules ext) = Some (L @ [newline]) \<and>
         (getFileExtension filename = ext \<and> fs filename = Some lines \<longrightarrow>
            main prog (filename # extra) fs =
              Some \<lparr>exit_code = 0, stdout = concat (map (\<lambda>l. l @ [newline]) lines), stderr = []\<rparr>)"
proof -
  from assms have "getHighlightRules ext = []"
    using getHighlightRules_supported [of ext] by simp
  then show ?thesis
    by (auto simp: highlightAndPrintLine_no_rules main_plain)
qed

text \<open>The file \<^verbatim>\<open>notes.txt\<close> with the two lines \<^verbatim>\<open>int x = 42;\<close> and the empty line.\<close>

theorem unsupported_language_witness:
  "''txt'' \<notin> supported \<and> getFileExtension ''notes.txt'' = ''txt'' \<and>
   getHighlightRules ''txt'' = [] \<and>
   main ''code2ascii'' [''notes.txt''] notes_fs =
     Some \<lparr>exit_code = 0, stdout = ''int x = 42;'' @ [newline] @ [newline], stderr = []\<rparr>"
  using unsupported_language [where ext = "''txt''" and filename = "''notes.txt''"
      and fs = notes_fs and lines = "[''int x = 42;'', [] ]" and prog = "''code2ascii''"
      and extra = "[]"]
  by (simp add: supported_def notes_fs_def getFileExtension_def)

subsection \<open>Usage\<close>

text \<open>
  C7. When no argument follows the program name (\<^verbatim>\<open>argc < 2\<close>), \<^verbatim>\<open>main\<close> writes the
  usage message to the error stream, writes nothing to the standard output and exits with
  code 1. Arguments after the first are ignored: the program behaves as if the first
  argument had been the only one.
\<close>

theorem usage_error:
  "main prog [] fs =
     Some \<lparr>exit_code = 1, stdout = [], stderr = ''Usage: '' @ prog @ '' filename'' @ [newline]\<rparr> \<and>
   main prog (filename # extra) fs = main prog [filename] fs"
  by (simp add: main_def)

text \<open>
  With two arguments the argument count is not one, yet the program prints the file named
  by the first and exits with code 0.
\<close>

theorem usage_error_counterexample:
  "main ''code2ascii'' [''notes.txt'', ''extra''] notes_fs =
     Some \<lparr>exit_code = 0, stdout = ''int x = 42;'' @ [newline] @ [newline], stderr = []\<rparr>"
  by (simp add: main_def notes_fs_def getFileExtension_def getHighlightRules_def
      highlightAndPrintLine_no_rules)

subsection \<open>The extension of a file name\<close>

text \<open>
  C8. \<^verbatim>\<open>getFileExtension\<close> returns the empty string for a name without \<^verbatim>\<open>.\<close>, and the
  text after the last \<^verbatim>\<open>.\<close> otherwise. \<^verbatim>\<open>main\<close> prints the lines of the file with the
  rule set that \<^verbatim>\<open>getHighlightRules\<close> returns for this value, and \<^verbatim>\<open>getHighlightRules\<close>
  compares it for equality with \<^verbatim>\<open>cpp\<close>, \<^verbatim>\<open>hpp\<close>, \<^verbatim>\<open>c\<close>, \<^verbatim>\<open>h\<close> and \<^verbatim>\<open>py\<close>.
\<close>

theorem extension_resolution:
  "(CHR ''.'' \<notin> set filename \<longrightarrow> getFileExtension filename = []) \<and>
   (CHR ''.'' \<notin> set e \<longrightarrow> getFileExtension (pre @ CHR ''.'' # e) = e) \<and>
   (fs filename = Some lines \<longrightarrow>
      main prog (filename # extra) fs =
        map_option (\<lambda>printed. \<lparr>exit_code = 0, stdout = printed, stderr = []\<rparr>)
          (print_lines (getHighlightRules (getFileExtension filename)) lines)) \<and>
   getHighlightRules ext =
     (if ext \<in> {''cpp'', ''hpp'', ''c'', ''h''} then c_rules
      else if ext = ''py'' then py_rules else [])"
  by (auto simp: getFileExtension_no_dot getFileExtension_last_dot main_file getHighlightRules_def)

text \<open>
  \<^verbatim>\<open>Makefile\<close> has no extension, \<^verbatim>\<open>setup.test.py\<close> has the extension \<^verbatim>\<open>py\<close>, and neither
  \<^verbatim>\<open>PY\<close> nor \<^verbatim>\<open>cpp\<close> followed by a space selects a rule set.
\<close>

theorem extension_resolution_witness:
  "CHR ''.'' \<notin> set ''Makefile'' \<and> getFileExtension ''Makefile'' = [] \<and>
   CHR ''.'' \<notin> set ''py'' \<and> getFileExtension ''setup.test.py'' = ''py'' \<and>
   getHighlightRules ''py'' = py_rules \<and> getHighlightRules ''PY'' = [] \<and>
   getHighlightRules ''cpp '' = [] \<and>
   main ''code2ascii'' [''notes.txt''] notes_fs =
     map_option (\<lambda>printed. \<lparr>exit_code = 0, stdout = printed, stderr = []\<rparr>)
       (print_lines (getHighlightRules (getFileExtension ''notes.txt'')) [''int x = 42;'', [] ])"
  using extension_resolution [where filename = "''Makefile''" and e = "''py''"
      and pre = "''setup.test''" and ext = "''py''"]
    extension_resolution [where filename = "''notes.txt''" and fs = notes_fs
      and lines = "[''int x = 42;'', [] ]" and prog = "''code2ascii''" and extra = "[]"
      and ext = "''PY''"]
    extension_resolution [where ext = "''cpp ''"]
  by (simp add: notes_fs_def)

subsection \<open>Termination on the catalogue\<close>

text \<open>
  C9. Every match of a pattern of the catalogue has at least one character. So an
  iteration of the scan loop that finds a match has \<^verbatim>\<open>earliest_pos + earliest_len >= 1\<close>
  and continues with a shorter text, and \<^verbatim>\<open>highlightAndPrintLine\<close> returns for every line
  and every rule set that \<^verbatim>\<open>getHighlightRules\<close> returns.
\<close>

theorem catalogue_scan_terminates:
  "(\<forall>r\<in>set (getHighlightRules ext). \<forall>s p l.
      regex_search s (pattern r) = Some (p, l) \<longrightarrow> 1 \<le> l) \<and>
   (\<forall>p l c. find_earliest (getHighlightRules ext) rem = Some (p, l, c) \<longrightarrow>
      1 \<le> p + l \<and> length (drop (p + l) rem) < length rem) \<and>
   (\<exists>spans. highlight_spans line (getHighlightRules ext) = Some spans \<and>
      highlightAndPrintLine line (getHighlightRules ext) = Some (render spans @ [newline]))"
proof (intro conjI ballI allI impI)
  fix r s p l
  assume "r \<in> set (getHighlightRules ext)" "regex_search s (pattern r) = Some (p, l)"
  with min_len_catalogue [of r ext] regex_search_range [of s "pattern r" p l]
  show "1 \<le> l" by simp
next
  fix p l c
  assume found: "find_earliest (getHighlightRules ext) rem = Some (p, l, c)"
  from find_earliest_Some [OF this] obtain w where w: "w < length (getHighlightRules ext)"
    "regex_search rem (pattern (getHighlightRules ext ! w)) = Some (p, l)"
    by blast
  from w(1) have "getHighlightRules ext ! w \<in> set (getHighlightRules ext)" by simp
  from min_len_catalogue [OF this] regex_search_range [OF w(2)]
  have l: "1 \<le> l" "p + l \<le> length rem" by simp_all
  then show "1 \<le> p + l" by simp
  from l show "length (drop (p + l) rem) < length rem" by simp
next
  from catalogue_returns [of line ext] obtain spans
    where spans: "highlight_spans line (getHighlightRules ext) = Some spans" ..
  then show "\<exists>spans. highlight_spans line (getHighlightRules ext) = Some spans \<and>
      highlightAndPrintLine line (getHighlightRules ext) = Some (render spans @ [newline])"
    by (simp add: highlightAndPrintLine_text)
qed

text \<open>The first iteration on \<^verbatim>\<open>x = 42;\<close> with the C rules finds \<^verbatim>\<open>42\<close> at index 4.\<close>

theorem catalogue_scan_terminates_witness:
  "find_earliest (getHighlightRules ''cpp'') ''x = 42;'' = Some (4, 2, number_color) \<and>
   length (drop (4 + 2) ''x = 42;'') < length ''x = 42;'' \<and>
   highlightAndPrintLine ''x = 42;'' (getHighlightRules ''cpp'') \<noteq> None"
  using catalogue_scan_terminates [where ext = "''cpp''" and rem = "''x = 42;''"
      and line = "''x = 42;''"] c_rules_first_match
  by (auto simp: getHighlightRules_def)

subsection \<open>A dot in a directory name\<close>

text \<open>
  C10. \<^verbatim>\<open>getFileExtension\<close> looks at the whole path. When a path separator follows the
  last \<^verbatim>\<open>.\<close> of the path, the extension is the text after that dot, it contains the
  separator, it is none of the supported extensions, the rule set is empty, and a readable
  file is printed without any highlighting.
\<close>

theorem dotted_directory:
  assumes "CHR ''.'' \<notin> set rest"
    and "sep \<in> set rest"
    and "sep = CHR ''/'' \<or> sep = backslash"
  shows "getFileExtension (dir @ CHR ''.'' # rest) = rest \<and>
         sep \<in> set (getFileExtension (dir @ CHR ''.'' # rest)) \<and>
         getFileExtension (dir @ CHR ''.'' # rest) \<notin> supported \<and>
         getHighlightRules (getFileExtension (dir @ CHR ''.'' # rest)) = [] \<and>
         (fs (dir @ CHR ''.'' # rest) = Some lines \<longrightarrow>
            main prog ((dir @ CHR ''.'' # rest) # extra) fs =
              Some \<lparr>exit_code = 0, stdout = concat (map (\<lambda>l. l @ [newline]) lines), stderr = []\<rparr>)"
proof -
  have ext: "getFileExtension (dir @ CHR ''.'' # rest) = rest"
    using assms(1) by (rule getFileExtension_last_dot)
  have "rest \<notin> supported"
    using assms(2,3) by (auto simp: supported_def backslash_def)
  then have "getHighlightRules rest = []"
    using getHighlightRules_supported [of rest] by simp
  with ext assms(2) \<open>rest \<notin> supported\<close> show ?thesis
    by (simp add: main_plain)
qed

text \<open>The path \<^verbatim>\<open>dir.v2/main\<close> of the claim.\<close>

theorem dotted_directory_witness:
  "CHR ''.'' \<notin> set ''v2/main'' \<and> CHR ''/'' \<in> set ''v2/main'' \<and>
   getFileExtension ''dir.v2/main'' = ''v2/main'' \<and>
   getHighlightRules (getFileExtension ''dir.v2/main'') = [] \<and>
   main ''code2ascii'' [''dir.v2/main''] dotted_fs =
     Some \<lparr>exit_code = 0, stdout = ''int x = 42;'' @ [newline], stderr = []\<rparr>"
  using dotted_directory [where rest = "''v2/main''" and sep = "CHR ''/''" and dir = "''dir''"
      and fs = dotted_fs and lines = "[''int x = 42;'']" and prog = "''code2ascii''"
      and extra = "[]"]
  by (auto simp: dotted_fs_def)

end
